theory Spec2Isabelle
  imports Main "HOL-Library.Word"
begin

section \<open>Data model\<close>

text \<open>
  Bars are shared by pointer between the bridge worker that writes them and the pool
  that draws them, so they live in a store indexed by addresses.  Go's \<open>int64\<close> is a
  64-bit word, \<open>int\<close> is an integer, an \<open>error\<close> is its message.
\<close>

type_synonym ref = nat
type_synonym int64 = "64 word"
type_synonym int16 = "16 word"
type_synonym error = string

text \<open>
  Modelled from the spec: the declaration of \<open>ProgressBar\<close> (pb.go) is not among the
  sources.  Section 3 of the specification gives the state (total, current, title data,
  error, finished flag); the template and the width are the two further settings that
  \<open>hasTitle\<close> and \<open>print\<close> write.
\<close>

record ProgressBar =
  bar_total :: int64
  bar_current :: int64
  bar_finished :: bool
  bar_err :: "error option"
  bar_vars :: "string \<rightharpoonup> string"
  bar_tmpl :: "string option"
  bar_width :: int

text \<open>
  Modelled from the spec: \<open>New64\<close>, the accessors and the mutators of section 4.1
  (\<open>Total\<close>, \<open>SetTotal\<close>, \<open>Current\<close>, \<open>SetCurrent\<close>, \<open>SetErr\<close>, \<open>Finish\<close>,
  \<open>IsFinished\<close>) and the setters \<open>Set\<close>, \<open>SetTemplateString\<close>, \<open>SetWidth\<close> are not
  among the sources.  Each one reads or writes its own field; a new bar has the given
  total, nothing done, no error, no data, the stock template (\<open>None\<close>) and no width.
\<close>

definition New64 :: "int64 \<Rightarrow> ProgressBar" where
  "New64 t = \<lparr>bar_total = t, bar_current = 0, bar_finished = False, bar_err = None,
              bar_vars = Map.empty, bar_tmpl = None, bar_width = 0\<rparr>"

definition Total :: "ProgressBar \<Rightarrow> int64" where
  "Total b = bar_total b"

definition Current :: "ProgressBar \<Rightarrow> int64" where
  "Current b = bar_current b"

definition IsFinished :: "ProgressBar \<Rightarrow> bool" where
  "IsFinished b = bar_finished b"

definition Err :: "ProgressBar \<Rightarrow> error option" where
  "Err b = bar_err b"

definition Get :: "string \<Rightarrow> ProgressBar \<Rightarrow> string option" where
  "Get k b = bar_vars b k"

definition SetTotal :: "int64 \<Rightarrow> ProgressBar \<Rightarrow> ProgressBar" where
  "SetTotal v b = b\<lparr>bar_total := v\<rparr>"

definition SetCurrent :: "int64 \<Rightarrow> ProgressBar \<Rightarrow> ProgressBar" where
  "SetCurrent v b = b\<lparr>bar_current := v\<rparr>"

definition SetErr :: "error option \<Rightarrow> ProgressBar \<Rightarrow> ProgressBar" where
  "SetErr e b = b\<lparr>bar_err := e\<rparr>"

definition Finish :: "ProgressBar \<Rightarrow> ProgressBar" where
  "Finish b = b\<lparr>bar_finished := True\<rparr>"

definition Set :: "string \<Rightarrow> string \<Rightarrow> ProgressBar \<Rightarrow> ProgressBar" where
  "Set k v b = b\<lparr>bar_vars := (bar_vars b)(k \<mapsto> v)\<rparr>"

definition SetTemplateString :: "string \<Rightarrow> ProgressBar \<Rightarrow> ProgressBar" where
  "SetTemplateString t b = b\<lparr>bar_tmpl := Some t\<rparr>"

definition SetWidth :: "int \<Rightarrow> ProgressBar \<Rightarrow> ProgressBar" where
  "SetWidth c b = b\<lparr>bar_width := c\<rparr>"

text \<open>
  The declaration of \<open>Pool\<close> (pool.go) is not among the sources; these are the fields
  \<open>print\<close> reads and writes: the display order, the line count of the previous frame and
  whether an output sink overrides standard error (the lock \<open>m\<close> is held throughout a
  call and has no state of its own here).
\<close>

record Pool =
  bars :: "ref list"
  lastBarsCount :: int
  Output :: bool

text \<open>
  The world: the store of bars with its allocator, the pool, the factory's wait-group
  counter and the panic that stopped the program, if any.
\<close>

record world =
  heap :: "ref \<Rightarrow> ProgressBar"
  fresh :: ref
  pool :: Pool
  wg :: int
  panic :: "error option"

section \<open>The pool's redraw: \<open>print\<close> in pool_x.go and in pool_win.go\<close>

text \<open>
  What \<open>print\<close> asks of packages that are not among the sources is a parameter: how a
  bar renders (\<open>bar.String()\<close>), how many cells a string takes (\<open>CellCount\<close>), the fall-back
  width, and the answers of \<open>termutil\<close> and of the writer during this call.
\<close>

record coords =
  X :: int16
  Y :: int16

record driver =
  bar_String :: "ProgressBar \<Rightarrow> string"
  CellCount :: "string \<Rightarrow> int"
  defaultBarWidth :: int
  TerminalSize :: "int \<times> int \<times> error option"
  TerminalWidth :: "int \<times> error option"
  GetCursorPos :: "coords \<times> error option"
  SetCursorPos :: "coords \<Rightarrow> error option"
  Fprint :: "string \<Rightarrow> error option"

text \<open>What a call of \<open>print\<close> does to the outside, in order.\<close>

datatype io = WriteOutput string | WriteStderr string | MoveCursor coords

text \<open>\<open>%d\<close> of \<open>fmt.Sprintf\<close>.\<close>

fun show_nat :: "nat \<Rightarrow> string" where
  "show_nat n =
     (if n < 10 then [char_of (48 + n)]
      else show_nat (n div 10) @ [char_of (48 + n mod 10)])"

declare show_nat.simps [simp del]

definition show_int :: "int \<Rightarrow> string" where
  "show_int i = (if i < 0 then CHR ''-'' # show_nat (nat (- i)) else show_nat (nat i))"

text \<open>The line of one bar: carriage return, the rendering padded with spaces, line feed.\<close>

definition pad_line :: "driver \<Rightarrow> int \<Rightarrow> string \<Rightarrow> string" where
  "pad_line d cols result =
     (let r = cols - CellCount d result;
          result' = (if r > 0 then result @ replicate (nat r) CHR '' '' else result)
      in CHR 0x0D # result' @ [CHR 0x0A])"

text \<open>
  The loop of pool_x.go over the bars it shows, carrying \<open>isFinished\<close>, \<open>out\<close> and the
  store (\<open>SetWidth\<close> writes the bar).
\<close>

fun draw_x :: "driver \<Rightarrow> int \<Rightarrow> ref list \<Rightarrow> bool \<times> string \<times> (ref \<Rightarrow> ProgressBar)
                \<Rightarrow> bool \<times> string \<times> (ref \<Rightarrow> ProgressBar)" where
  "draw_x d cols [] acc = acc"
| "draw_x d cols (bar # rest) (isFinished, out, h) =
     (let isFinished' = (if \<not> IsFinished (h bar) then False else isFinished);
          h' = h(bar := SetWidth cols (h bar));
          result = bar_String d (h' bar)
      in draw_x d cols rest (isFinished', out @ pad_line d cols result, h'))"

text \<open>The bars a frame shows: \<open>bars[len(bars)-rows:]\<close> when they overflow the rows.\<close>

definition shown_x :: "int \<Rightarrow> ref list \<Rightarrow> ref list" where
  "shown_x rows bs =
     (if rows > 0 \<and> int (length bs) > rows then drop (nat (int (length bs) - rows)) bs else bs)"

definition write_out :: "driver \<Rightarrow> Pool \<Rightarrow> string \<Rightarrow> io list" where
  "write_out d p out =
     [if Output p then WriteOutput out else WriteStderr out] @
     (case Fprint d out of
        None \<Rightarrow> []
      | Some e \<Rightarrow> [WriteStderr (''pool print error: '' @ e @ [CHR 0x0A])])"

definition print_x :: "driver \<Rightarrow> bool \<Rightarrow> world \<Rightarrow> bool \<times> io list \<times> world" where
  "print_x d first w =
     (let p = pool w;
          out0 = (if \<not> first then [CHR 0x1B, CHR ''[''] @ show_int (lastBarsCount p) @ ''A'' else []);
          (rows, cols0, err) = TerminalSize d;
          cols = (if err \<noteq> None then defaultBarWidth d else cols0);
          bs = shown_x rows (bars p);
          (isFinished, out, h) = draw_x d cols bs (True, out0, heap w)
      in (isFinished, write_out d p out,
          w\<lparr>heap := h, pool := p\<lparr>lastBarsCount := int (length bs)\<rparr>\<rparr>))"

text \<open>The loop of pool_win.go: every bar of the pool, no \<open>SetWidth\<close>.\<close>

fun draw_win :: "driver \<Rightarrow> int \<Rightarrow> ref list \<Rightarrow> (ref \<Rightarrow> ProgressBar) \<Rightarrow> bool \<times> string
                  \<Rightarrow> bool \<times> string" where
  "draw_win d cols [] h acc = acc"
| "draw_win d cols (bar # rest) h (isFinished, out) =
     (let isFinished' = (if \<not> IsFinished (h bar) then False else isFinished);
          result = bar_String d (h bar)
      in draw_win d cols rest h (isFinished', out @ pad_line d cols result))"

text \<open>The cursor of pool_win.go: back by the previous frame's lines, not above row 0.\<close>

definition reposition :: "driver \<Rightarrow> Pool \<Rightarrow> io list" where
  "reposition d p =
     (case GetCursorPos d of
        (c, Some e) \<Rightarrow> [WriteStderr (''cursor position error: '' @ e @ [CHR 0x0A])]
      | (c, None) \<Rightarrow>
          (let y = Y c - word_of_int (lastBarsCount p);
               y' = (if sint y < 0 then 0 else y);
               c' = c\<lparr>Y := y', X := 0\<rparr>
           in MoveCursor c' #
              (case SetCursorPos d c' of
                 None \<Rightarrow> []
               | Some e \<Rightarrow> [WriteStderr (''cursor set error: '' @ e @ [CHR 0x0A])])))"

definition print_win :: "driver \<Rightarrow> bool \<Rightarrow> world \<Rightarrow> bool \<times> io list \<times> world" where
  "print_win d first w =
     (let p = pool w;
          moves = (if \<not> first then reposition d p else []);
          (cols0, err) = TerminalWidth d;
          cols = (if err \<noteq> None then defaultBarWidth d else cols0);
          (isFinished, out) = draw_win d cols (bars p) (heap w) (True, [])
      in (isFinished, moves @ write_out d p out,
          w\<lparr>pool := p\<lparr>lastBarsCount := int (length (bars p))\<rparr>\<rparr>))"


section \<open>The synchronization bridge: interface.go\<close>

text \<open>
  A \<open>chan struct{}\<close> as its receiver sees it: the values waiting to be received and
  whether it is closed.  Closing a closed channel panics.
\<close>

record chan =
  pending :: nat
  closed :: bool

definition close_chan :: "chan \<Rightarrow> error + chan" where
  "close_chan c = (if closed c then Inl ''close of closed channel'' else Inr (c\<lparr>closed := True\<rparr>))"

text \<open>
  A progress source is what its methods answer at the moment: \<open>Total()\<close>, \<open>Value()\<close>,
  the channel of \<open>FinishedChan()\<close>, and \<open>Title()\<close> when the source is a
  \<open>TitleProgressable\<close> (\<open>None\<close> when it is not).  \<open>finishOnce\<close> is the
  \<open>sync.Once\<close> of \<open>MockProgressable\<close> (interface_test.go): whether \<open>Finish\<close> has run.
\<close>

record source =
  src_total :: int64
  src_value :: int64
  src_title :: "string option"
  finishCh :: chan
  finishOnce :: bool

definition NewMockProgressable :: "int64 \<Rightarrow> source" where
  "NewMockProgressable t =
     \<lparr>src_total = t, src_value = 0, src_title = None,
      finishCh = \<lparr>pending = 0, closed = False\<rparr>, finishOnce = False\<rparr>"

definition NewMockProgressableWithTitle :: "int64 \<Rightarrow> string \<Rightarrow> source" where
  "NewMockProgressableWithTitle t ti = (NewMockProgressable t)\<lparr>src_title := Some ti\<rparr>"

definition pr_Total :: "source \<Rightarrow> int64" where
  "pr_Total p = src_total p"

definition pr_Value :: "source \<Rightarrow> int64" where
  "pr_Value p = src_value p"

definition FinishedChan :: "source \<Rightarrow> chan" where
  "FinishedChan p = finishCh p"

definition Mock_SetCurrent :: "int64 \<Rightarrow> source \<Rightarrow> source" where
  "Mock_SetCurrent v p = p\<lparr>src_value := v\<rparr>"

definition Mock_Finish :: "source \<Rightarrow> error + source" where
  "Mock_Finish p =
     (if finishOnce p then Inr p
      else (case close_chan (finishCh p) of
              Inl e \<Rightarrow> Inl e
            | Inr c \<Rightarrow> Inr (p\<lparr>finishCh := c, finishOnce := True\<rparr>)))"

text \<open>
  A context: the background one is never done; a cancellable one is done once it has an
  error, and the first cancellation wins.
\<close>

datatype Context = Background | WithCancel "error option"

definition ctx_Err :: "Context \<Rightarrow> error option" where
  "ctx_Err c = (case c of Background \<Rightarrow> None | WithCancel e \<Rightarrow> e)"

definition cancel :: "error \<Rightarrow> Context \<Rightarrow> Context" where
  "cancel e c = (case c of WithCancel None \<Rightarrow> WithCancel (Some e) | _ \<Rightarrow> c)"

text \<open>
  The goroutine started by \<open>go progressWorker(ctx, pr, bar, removeFunc)\<close>: its four
  arguments, where its control is (still in the loop, or returned from the cancellation
  branch or from the completion branch) and how often it has called \<open>removeFunc\<close>.
  With it goes what the caller that started it has still to run: \<open>RegisterContext\<close>
  reaches the \<open>go\<close> statement before its \<open>f.Pool.Add(bar)\<close>, so the goroutine may take
  turns, and even return, while that call is still ahead (\<open>t_add_pending\<close>).
\<close>

datatype status = Running | Cancelled | Completed

record task =
  t_ctx :: Context
  t_pr :: source
  t_bar :: ref
  t_removeFunc :: "ref \<Rightarrow> world \<Rightarrow> world"
  t_status :: status
  t_removed :: nat
  t_add_pending :: bool

definition on_bar :: "ref \<Rightarrow> (ProgressBar \<Rightarrow> ProgressBar) \<Rightarrow> world \<Rightarrow> world" where
  "on_bar bar f w = w\<lparr>heap := (heap w)(bar := f (heap w bar))\<rparr>"

text \<open>\<open>hasTitle(pr, bar)\<close>; \<open>None\<close> is the nil pointer.\<close>

definition titleTemplate :: string where
  "titleTemplate = ''{{string . \"title\"}} {{counters . }} {{bar . }} {{percent . }} {{speed . }}''"

definition hasTitle :: "source option \<Rightarrow> ref option \<Rightarrow> world \<Rightarrow> world" where
  "hasTitle pr bar w =
     (case (pr, bar) of
        (Some p, Some b) \<Rightarrow>
          (case src_title p of
             None \<Rightarrow> w
           | Some title \<Rightarrow>
               if title = [] then w
               else on_bar b (SetTemplateString titleTemplate) (on_bar b (Set ''title'' title) w))
      | _ \<Rightarrow> w)"

text \<open>
  The deferred calls, run in reverse order when the worker returns: \<open>bar.Finish()\<close>, then
  \<open>removeFunc(bar)\<close>, then \<open>ticker.Stop()\<close> (no effect on this state).
\<close>

definition deferred :: "task \<times> world \<Rightarrow> task \<times> world" where
  "deferred tw =
     (let (t, w) = tw;
          w1 = on_bar (t_bar t) Finish w;
          w2 = t_removeFunc t (t_bar t) w1
      in (t\<lparr>t_removed := t_removed t + 1\<rparr>, w2))"

text \<open>\<open>bar.SetTotal(pr.Total()); bar.SetCurrent(pr.Value())\<close>\<close>

definition sync :: "task \<Rightarrow> world \<Rightarrow> world" where
  "sync t w =
     on_bar (t_bar t) (SetCurrent (pr_Value (t_pr t)))
       (on_bar (t_bar t) (SetTotal (pr_Total (t_pr t))) w)"

text \<open>
  One turn of the loop of \<open>progressWorker\<close>: the case the \<open>select\<close> takes.  A case that
  is not ready cannot be taken and leaves the state as it is; the ticker is taken as
  ready whenever the scheduler says so.
\<close>

datatype select_case = CtxDone | TickerC | Fc

fun progressWorker :: "select_case \<Rightarrow> task \<times> world \<Rightarrow> task \<times> world" where
  "progressWorker CtxDone (t, w) =
     (case ctx_Err (t_ctx t) of
        None \<Rightarrow> (t, w)
      | Some e \<Rightarrow> deferred (t\<lparr>t_status := Cancelled\<rparr>, on_bar (t_bar t) (SetErr (Some e)) w))"
| "progressWorker TickerC (t, w) = (t, sync t w)"
| "progressWorker Fc (t, w) =
     (let fc = FinishedChan (t_pr t) in
      if pending fc > 0
      then (t\<lparr>t_pr := (t_pr t)\<lparr>finishCh := fc\<lparr>pending := pending fc - 1\<rparr>\<rparr>\<rparr>, w)
      else if closed fc then deferred (t\<lparr>t_status := Completed\<rparr>, sync t w)
      else (t, w))"

text \<open>
  Modelled from the spec: \<open>Pool.Add\<close> and \<open>Pool.Remove\<close> (pool.go) are not among the
  sources.  Section 4.3: \<open>Add\<close> appends to the end of the display order, \<open>Remove\<close>
  deletes by identity and does nothing when the bar is absent.
\<close>

definition Pool_Add :: "ref \<Rightarrow> world \<Rightarrow> world" where
  "Pool_Add b w = w\<lparr>pool := (pool w)\<lparr>bars := bars (pool w) @ [b]\<rparr>\<rparr>"

definition Pool_Remove :: "ref \<Rightarrow> world \<Rightarrow> world" where
  "Pool_Remove b w = w\<lparr>pool := (pool w)\<lparr>bars := remove1 b (bars (pool w))\<rparr>\<rparr>"

text \<open>\<open>sync.WaitGroup\<close>: a counter that panics when it would go below zero.\<close>

definition Wg_Add :: "int \<Rightarrow> world \<Rightarrow> world" where
  "Wg_Add n w =
     (if wg w + n < 0 then w\<lparr>panic := Some ''sync: negative WaitGroup counter''\<rparr>
      else w\<lparr>wg := wg w + n\<rparr>)"

definition Wg_Done :: "world \<Rightarrow> world" where
  "Wg_Done w = Wg_Add (- 1) w"

text \<open>
  \<open>RegisterProgressableContext\<close> returns the bar or the error, the goroutine it has
  started (if any) and the world it leaves.  \<open>New64\<close> allocates the bar.
\<close>

definition RegisterProgressableContext ::
  "Context option \<Rightarrow> source option \<Rightarrow> (ref \<Rightarrow> world \<Rightarrow> world) option \<Rightarrow> world
     \<Rightarrow> (error + ref) \<times> task option \<times> world" where
  "RegisterProgressableContext ctx pr removeFunc w =
     (let ctx' = (case ctx of None \<Rightarrow> Background | Some c \<Rightarrow> c) in
      case pr of
        None \<Rightarrow> (Inl ''RegisterProgressable: pr is nil'', None, w)
      | Some p \<Rightarrow>
         (case removeFunc of
            None \<Rightarrow> (Inl ''RegisterProgressable: removeFunc is nil'', None, w)
          | Some rf \<Rightarrow>
             (let bar = fresh w;
                  w1 = w\<lparr>heap := (heap w)(bar := New64 (pr_Total p)), fresh := Suc bar\<rparr>;
                  w2 = hasTitle pr (Some bar) w1
              in (Inr bar,
                  Some \<lparr>t_ctx = ctx', t_pr = p, t_bar = bar, t_removeFunc = rf,
                        t_status = Running, t_removed = 0, t_add_pending = False\<rparr>,
                  w2))))"

definition RegisterProgressable ::
  "source option \<Rightarrow> (ref \<Rightarrow> world \<Rightarrow> world) option \<Rightarrow> world
     \<Rightarrow> (error + ref) \<times> task option \<times> world" where
  "RegisterProgressable pr removeFunc w =
     RegisterProgressableContext (Some Background) pr removeFunc w"

text \<open>
  \<open>PoolProgressFactory.RegisterContext\<close>: the factory's pool and wait group are those of
  the world.  The result is the error it returns (if any), the goroutine started and the
  world.  On success the world is the one at the \<open>go\<close> statement inside
  \<open>RegisterProgressableContext\<close>: from there the worker runs beside the caller, whose
  last statement \<open>f.Pool.Add(bar)\<close> is left pending and is run by the event
  \<open>CallerAdd\<close> below, before or after any turn of the worker.
\<close>

definition factory_removeFunc :: "ref \<Rightarrow> world \<Rightarrow> world" where
  "factory_removeFunc pb w = Wg_Done (Pool_Remove pb w)"

definition RegisterContext ::
  "Context option \<Rightarrow> source option \<Rightarrow> world \<Rightarrow> error option \<times> task option \<times> world" where
  "RegisterContext ctx p w =
     (case p of
        None \<Rightarrow> (Some ''Register: progressable is nil'', None, w)
      | Some _ \<Rightarrow>
         (let ctx' = (case ctx of None \<Rightarrow> Some Background | Some c \<Rightarrow> Some c);
              w1 = Wg_Add 1 w
          in case RegisterProgressableContext ctx' p (Some factory_removeFunc) w1 of
               (Inl err, g, w2) \<Rightarrow> (Some err, g, Wg_Done w2)
             | (Inr bar, g, w2) \<Rightarrow>
                 (None, map_option (\<lambda>t. t\<lparr>t_add_pending := True\<rparr>) g, w2)))"

definition Register :: "source option \<Rightarrow> world \<Rightarrow> error option \<times> task option \<times> world" where
  "Register p w = RegisterContext (Some Background) p w"

subsection \<open>Executions\<close>

text \<open>
  What happens around a registration, one event at a time: the source revises its
  answers (its title only if it has one), sends on or fires its completion channel
  (\<open>MockProgressable.Finish\<close>), the context is cancelled, the worker's \<open>select\<close>
  takes a case, or the caller of \<open>RegisterContext\<close> runs its pending
  \<open>f.Pool.Add(bar)\<close>.  A panic stops everything.
\<close>

datatype event =
    SrcSetTotal int64
  | SrcSetCurrent int64
  | SrcSetTitle string
  | SrcSend
  | SrcFinish
  | CtxCancel error
  | Select select_case
  | CallerAdd

fun step :: "event \<Rightarrow> task \<times> world \<Rightarrow> task \<times> world" where
  "step ev (t, w) =
     (if panic w \<noteq> None then (t, w)
      else case ev of
        SrcSetTotal v \<Rightarrow> (t\<lparr>t_pr := (t_pr t)\<lparr>src_total := v\<rparr>\<rparr>, w)
      | SrcSetCurrent v \<Rightarrow> (t\<lparr>t_pr := Mock_SetCurrent v (t_pr t)\<rparr>, w)
      | SrcSetTitle s \<Rightarrow>
          (case src_title (t_pr t) of
             None \<Rightarrow> (t, w)
           | Some _ \<Rightarrow> (t\<lparr>t_pr := (t_pr t)\<lparr>src_title := Some s\<rparr>\<rparr>, w))
      | SrcSend \<Rightarrow>
          (let fc = finishCh (t_pr t) in
           if closed fc then (t, w\<lparr>panic := Some ''send on closed channel''\<rparr>)
           else (t\<lparr>t_pr := (t_pr t)\<lparr>finishCh := fc\<lparr>pending := pending fc + 1\<rparr>\<rparr>\<rparr>, w))
      | SrcFinish \<Rightarrow>
          (case Mock_Finish (t_pr t) of
             Inl e \<Rightarrow> (t, w\<lparr>panic := Some e\<rparr>)
           | Inr p \<Rightarrow> (t\<lparr>t_pr := p\<rparr>, w))
      | CtxCancel e \<Rightarrow> (t\<lparr>t_ctx := cancel e (t_ctx t)\<rparr>, w)
      | Select c \<Rightarrow> (if t_status t = Running then progressWorker c (t, w) else (t, w))
      | CallerAdd \<Rightarrow>
          (if t_add_pending t then (t\<lparr>t_add_pending := False\<rparr>, Pool_Add (t_bar t) w)
           else (t, w)))"

fun run :: "event list \<Rightarrow> task \<times> world \<Rightarrow> task \<times> world" where
  "run [] s = s"
| "run (ev # evs) s = run evs (step ev s)"


subsection \<open>Vocabulary of the proofs\<close>

text \<open>The text of one bar's line in a frame of pool_x.go, of width \<open>cols\<close>.\<close>

definition line_x :: "driver \<Rightarrow> int \<Rightarrow> ProgressBar \<Rightarrow> string" where
  "line_x d cols b = pad_line d cols (bar_String d (SetWidth cols b))"

text \<open>
  Between two states nothing the worker writes has moved: its control, its count of
  callback calls, its bar pointer, the store, the counter, the allocator.
\<close>

definition unchanged :: "task \<times> world \<Rightarrow> task \<times> world \<Rightarrow> bool" where
  "unchanged s s' =
     (t_status (fst s') = t_status (fst s) \<and> t_removed (fst s') = t_removed (fst s) \<and>
      t_bar (fst s') = t_bar (fst s) \<and> heap (snd s') = heap (snd s) \<and>
      wg (snd s') = wg (snd s) \<and> fresh (snd s') = fresh (snd s))"

text \<open>A removal callback that writes no bar.\<close>

definition quiet :: "task \<times> world \<Rightarrow> bool" where
  "quiet s = (\<forall>x w. heap (t_removeFunc (fst s) x w) = heap w)"

text \<open>What the worker's control says about its bar.\<close>

definition bridge_inv :: "task \<times> world \<Rightarrow> bool" where
  "bridge_inv s =
     (let t = fst s; bar = heap (snd s) (t_bar t) in
      case t_status t of
        Running \<Rightarrow> \<not> IsFinished bar \<and> Err bar = None \<and> t_removed t = 0
      | Cancelled \<Rightarrow> IsFinished bar \<and> ctx_Err (t_ctx t) \<noteq> None \<and> Err bar = ctx_Err (t_ctx t)
                       \<and> t_removed t = 1
      | Completed \<Rightarrow> IsFinished bar \<and> Err bar = None \<and> closed (FinishedChan (t_pr t))
                       \<and> t_removed t = 1)"

text \<open>
  What the worker's control and the pending \<open>Add\<close> say about the factory: \<open>bs\<close> and
  \<open>n\<close> are the display order and the counter before the registration.
\<close>

definition factory_inv :: "ref list \<Rightarrow> int \<Rightarrow> task \<times> world \<Rightarrow> bool" where
  "factory_inv bs n s =
     (let t = fst s; w = snd s in
      t_removeFunc t = factory_removeFunc \<and> t_bar t \<notin> set bs \<and> 0 \<le> n \<and>
      t_removed t = (if t_status t = Running then 0 else 1) \<and>
      wg w = (if t_status t = Running then n + 1 else n) \<and>
      (if t_add_pending t then bars (pool w) = bs
       else if t_status t = Running then bars (pool w) = bs @ [t_bar t]
       else bars (pool w) = bs \<or> bars (pool w) = bs @ [t_bar t]))"

text \<open>The \<open>Add\<close> has come while the worker was in its loop.\<close>

definition added_inv :: "ref list \<Rightarrow> task \<times> world \<Rightarrow> bool" where
  "added_inv bs s =
     (\<not> t_add_pending (fst s) \<and>
      bars (pool (snd s)) = (if t_status (fst s) = Running then bs @ [t_bar (fst s)] else bs))"

text \<open>The worker has returned while the \<open>Add\<close> was still ahead.\<close>

definition late_inv :: "ref list \<Rightarrow> task \<times> world \<Rightarrow> bool" where
  "late_inv bs s =
     (t_status (fst s) \<noteq> Running \<and>
      bars (pool (snd s)) = (if t_add_pending (fst s) then bs else bs @ [t_bar (fst s)]))"

text \<open>The completion channel is closed only by \<open>Finish\<close>.\<close>

definition once_inv :: "task \<times> world \<Rightarrow> bool" where
  "once_inv s = (closed (finishCh (t_pr (fst s))) \<longrightarrow> finishOnce (t_pr (fst s)))"

subsection \<open>Concrete scenarios\<close>

text \<open>
  An empty world; the callback \<open>func(*ProgressBar) {}\<close> of the tests; the goroutine and
  the world a registration leaves.
\<close>

definition no_bars :: world where
  "no_bars = \<lparr>heap = (\<lambda>_. New64 0), fresh = 0,
              pool = \<lparr>bars = [], lastBarsCount = 0, Output = False\<rparr>, wg = 0, panic = None\<rparr>"

definition noop :: "ref \<Rightarrow> world \<Rightarrow> world" where
  "noop pb w = w"

definition started :: "'a \<times> task option \<times> world \<Rightarrow> task \<times> world" where
  "started r = (the (fst (snd r)), snd (snd r))"

text \<open>Total 150, values 0, 40, 90 seen by a tick each, then 150 and the completion.\<close>

definition flush_scenario :: "task \<times> world" where
  "flush_scenario =
     run [SrcSetCurrent 0, Select TickerC, SrcSetCurrent 40, Select TickerC, SrcSetCurrent 90,
          Select TickerC, SrcSetCurrent 150, SrcFinish]
       (started (Register (Some (NewMockProgressable 150)) no_bars))"

text \<open>Value 40 seen by a tick, then the context is cancelled.\<close>

definition cancel_scenario :: "task \<times> world" where
  "cancel_scenario =
     run [SrcSetCurrent 40, Select TickerC, CtxCancel ''context canceled'']
       (started (RegisterContext (Some (WithCancel None)) (Some (NewMockProgressable 100))
          no_bars))"

text \<open>What the source and the scheduler do after that cancellation has been handled.\<close>

definition after_cancel :: "event list" where
  "after_cancel = [SrcSetCurrent 90, Select TickerC, SrcFinish, Select Fc]"

text \<open>A context cancelled right after the registration, and the worker taking that case.\<close>

definition cancelled_run :: "task \<times> world" where
  "cancelled_run =
     run [CtxCancel ''context canceled'', Select CtxDone]
       (started (RegisterProgressableContext (Some (WithCancel None))
          (Some (NewMockProgressable 100)) (Some noop) no_bars))"

text \<open>
  The completion fired and taken before the caller's \<open>Add\<close>, which then comes, and
  the completion fired once more.
\<close>

definition early_return :: "event list" where
  "early_return = [SrcFinish, Select Fc]"

definition late_add :: "event list" where
  "late_add = [CallerAdd, SrcFinish, Select Fc]"

text \<open>The completion fired twice, with the worker's turns in between and after.\<close>

definition double_fire :: "event list" where
  "double_fire = [SrcFinish, SrcFinish, Select Fc, SrcFinish, Select Fc, Select CtxDone]"

text \<open>A titled source whose title changes after the registration.\<close>

definition retitled :: "event list" where
  "retitled = [SrcSetTitle ''Other:'', Select TickerC, SrcFinish, Select Fc]"

text \<open>
  A terminal of the given number of rows and six columns, bars that render as their
  state, and pools of two bars (the older one still busy) and of three.
\<close>

definition plain_driver :: "int \<Rightarrow> driver" where
  "plain_driver rows =
     \<lparr>bar_String = (\<lambda>b. if bar_finished b then ''done'' else ''busy''),
      CellCount = (\<lambda>s. int (length s)), defaultBarWidth = 80,
      TerminalSize = (rows, 6, None), TerminalWidth = (6, None),
      GetCursorPos = (\<lparr>X = 0, Y = 0\<rparr>, None), SetCursorPos = (\<lambda>_. None),
      Fprint = (\<lambda>_. None)\<rparr>"

definition two_bars :: world where
  "two_bars = \<lparr>heap = (\<lambda>r. if r = 1 then Finish (New64 10) else New64 10), fresh = 2,
               pool = \<lparr>bars = [0, 1], lastBarsCount = 0, Output = False\<rparr>, wg = 0,
               panic = None\<rparr>"

definition three_bars :: world where
  "three_bars = \<lparr>heap = (\<lambda>r. if r = 1 then Finish (New64 10) else New64 10), fresh = 3,
                 pool = \<lparr>bars = [0, 1, 2], lastBarsCount = 0, Output = False\<rparr>, wg = 0,
                 panic = None\<rparr>"

section \<open>Lemmas\<close>

lemmas bar_defs = IsFinished_def Err_def Total_def Current_def Get_def SetTotal_def SetCurrent_def
  SetErr_def Finish_def Set_def SetTemplateString_def SetWidth_def New64_def

lemmas model_defs =
  no_bars_def noop_def started_def Register_def RegisterContext_def
  RegisterProgressableContext_def RegisterProgressable_def hasTitle_def
  NewMockProgressable_def NewMockProgressableWithTitle_def pr_Total_def pr_Value_def
  FinishedChan_def Mock_SetCurrent_def Mock_Finish_def close_chan_def ctx_Err_def cancel_def
  on_bar_def deferred_def sync_def Pool_Add_def Pool_Remove_def Wg_Add_def Wg_Done_def
  factory_removeFunc_def Let_def

lemmas print_defs =
  print_x_def print_win_def shown_x_def write_out_def pad_line_def reposition_def
  plain_driver_def two_bars_def three_bars_def line_x_def Let_def

subsection \<open>The redraw loop\<close>

lemma draw_x_finished:
  "fst (draw_x d cols bs (f, out, h)) = (f \<and> (\<forall>b\<in>set bs. IsFinished (h b)))"
proof (induction bs arbitrary: f out h)
  case Nil
  show ?case by simp
next
  case (Cons b bs)
  have same: "\<And>x. IsFinished ((h(b := SetWidth cols (h b))) x) = IsFinished (h x)"
    by (simp add: IsFinished_def SetWidth_def)
  show ?case
    by (auto simp add: Cons.IH same Let_def simp del: fun_upd_apply)
qed

lemma draw_x_out:
  "fst (snd (draw_x d cols bs (f, out, h))) = out @ concat (map (\<lambda>b. line_x d cols (h b)) bs)"
proof (induction bs arbitrary: f out h)
  case Nil
  show ?case by simp
next
  case (Cons b bs)
  have same: "\<And>x. line_x d cols ((h(b := SetWidth cols (h b))) x) = line_x d cols (h x)"
    by (simp add: line_x_def SetWidth_def)
  have first: "pad_line d cols (bar_String d (SetWidth cols (h b))) = line_x d cols (h b)"
    by (simp add: line_x_def)
  show ?case
    by (simp add: Cons.IH same first Let_def fun_upd_same del: fun_upd_apply)
qed

subsection \<open>The worker's turns\<close>

lemma progressWorker_unfold:
  "progressWorker c (t, w) =
     (case c of
        CtxDone \<Rightarrow>
          (case ctx_Err (t_ctx t) of
             None \<Rightarrow> (t, w)
           | Some e \<Rightarrow> deferred (t\<lparr>t_status := Cancelled\<rparr>, on_bar (t_bar t) (SetErr (Some e)) w))
      | TickerC \<Rightarrow> (t, sync t w)
      | Fc \<Rightarrow>
          (if pending (FinishedChan (t_pr t)) > 0
           then (t\<lparr>t_pr := (t_pr t)\<lparr>finishCh :=
                   (FinishedChan (t_pr t))\<lparr>pending := pending (FinishedChan (t_pr t)) - 1\<rparr>\<rparr>\<rparr>, w)
           else if closed (FinishedChan (t_pr t)) then deferred (t\<lparr>t_status := Completed\<rparr>, sync t w)
           else (t, w)))"
  by (cases c) (simp_all add: Let_def)

lemma step_Fc_closed:
  assumes "t_status t = Running" "panic w = None"
    "pending (FinishedChan (t_pr t)) = 0" "closed (FinishedChan (t_pr t))"
  shows "step (Select Fc) (t, w) =
          (t\<lparr>t_status := Completed, t_removed := t_removed t + 1\<rparr>,
           t_removeFunc t (t_bar t) (on_bar (t_bar t) Finish (sync t w)))"
  using assms by (simp add: deferred_def Let_def)

lemma step_CtxDone:
  assumes "t_status t = Running" "panic w = None" "ctx_Err (t_ctx t) = Some e"
  shows "step (Select CtxDone) (t, w) =
          (t\<lparr>t_status := Cancelled, t_removed := t_removed t + 1\<rparr>,
           t_removeFunc t (t_bar t)
             (on_bar (t_bar t) Finish (on_bar (t_bar t) (SetErr (Some e)) w)))"
  using assms by (simp add: deferred_def Let_def)

lemma step_returned:
  "t_status (fst s) \<noteq> Running \<Longrightarrow> unchanged s (step ev s)"
  by (cases s; cases ev)
     (auto simp: unchanged_def Let_def Pool_Add_def split: option.splits sum.splits)

lemma run_returned:
  "t_status (fst s) \<noteq> Running \<Longrightarrow> unchanged s (run evs s)"
proof (induction evs arbitrary: s)
  case Nil
  show ?case by (simp add: unchanged_def)
next
  case (Cons ev evs)
  have 1: "unchanged s (step ev s)" using Cons.prems by (rule step_returned)
  then have "t_status (fst (step ev s)) \<noteq> Running" using Cons.prems by (simp add: unchanged_def)
  then have 2: "unchanged (step ev s) (run evs (step ev s))" by (rule Cons.IH)
  show ?case using 1 2 by (simp add: unchanged_def)
qed

lemma step_quiet: "quiet s \<Longrightarrow> quiet (step ev s)"
  by (cases s; cases ev; cases "t_status (fst s)")
     (auto simp: quiet_def Let_def deferred_def progressWorker_unfold Pool_Add_def
           split: option.splits sum.splits select_case.splits)

lemma ctx_Err_cancel: "ctx_Err c \<noteq> None \<Longrightarrow> ctx_Err (cancel e' c) = ctx_Err c"
  by (auto simp: ctx_Err_def cancel_def split: Context.splits option.splits)

lemma Mock_Finish_closed:
  "Mock_Finish p = Inr p' \<Longrightarrow> closed (finishCh p) \<Longrightarrow> closed (finishCh p')"
  by (auto simp: Mock_Finish_def close_chan_def split: if_splits)

lemma step_bridge_inv:
  assumes "quiet s" "bridge_inv s"
  shows "bridge_inv (step ev s)"
proof (cases s)
  case (Pair t w)
  have q: "\<And>x w'. heap (t_removeFunc t x w') = heap w'"
    using assms(1) Pair by (simp add: quiet_def)
  show ?thesis
  proof (cases "panic w = None")
    case False
    then show ?thesis using assms(2) Pair by simp
  next
    case True
    show ?thesis
    proof (cases ev)
      case (Select c)
      show ?thesis
      proof (cases "t_status t = Running")
        case False
        then show ?thesis using assms(2) Pair Select True by simp
      next
        case run: True
        show ?thesis using assms(2) Pair Select True run q
          by (cases c)
             (auto simp: bridge_inv_def Let_def deferred_def sync_def on_bar_def bar_defs
                   FinishedChan_def split: option.splits)
      qed
    next
      case (CtxCancel e)
      then show ?thesis using assms(2) Pair True
        by (cases "t_status t"; cases "ctx_Err (t_ctx t)")
           (auto simp: bridge_inv_def Let_def FinishedChan_def ctx_Err_cancel)
    next
      case SrcFinish
      then show ?thesis using assms(2) Pair True
        by (cases "t_status t")
           (auto simp: bridge_inv_def Let_def FinishedChan_def split: sum.splits
                 dest: Mock_Finish_closed)
    next
      case SrcSend
      then show ?thesis using assms(2) Pair True
        by (cases "t_status t") (auto simp: bridge_inv_def Let_def FinishedChan_def)
    next
      case (SrcSetTotal v)
      then show ?thesis using assms(2) Pair True
        by (cases "t_status t") (auto simp: bridge_inv_def Let_def FinishedChan_def)
    next
      case (SrcSetCurrent v)
      then show ?thesis using assms(2) Pair True
        by (cases "t_status t")
           (auto simp: bridge_inv_def Let_def FinishedChan_def Mock_SetCurrent_def)
    next
      case (SrcSetTitle v)
      then show ?thesis using assms(2) Pair True
        by (cases "t_status t")
           (auto simp: bridge_inv_def Let_def FinishedChan_def split: option.splits)
    next
      case CallerAdd
      then show ?thesis using assms(2) Pair True
        by (cases "t_status t")
           (auto simp: bridge_inv_def Let_def FinishedChan_def Pool_Add_def)
    qed
  qed
qed

lemma run_bridge_inv:
  "quiet s \<Longrightarrow> bridge_inv s \<Longrightarrow> bridge_inv (run evs s)"
  by (induction evs arbitrary: s) (simp_all add: step_quiet step_bridge_inv)

lemma step_t_bar: "t_bar (fst (step ev s)) = t_bar (fst s)"
  by (cases s; cases ev; cases "t_status (fst s)")
     (auto simp: Let_def deferred_def progressWorker_unfold Pool_Add_def
           split: option.splits sum.splits select_case.splits)

lemma run_t_bar: "t_bar (fst (run evs s)) = t_bar (fst s)"
  by (induction evs arbitrary: s) (simp_all add: step_t_bar)

lemma step_title:
  assumes "quiet s"
  shows "bar_vars (heap (snd (step ev s)) b) = bar_vars (heap (snd s) b)
       \<and> bar_tmpl (heap (snd (step ev s)) b) = bar_tmpl (heap (snd s) b)"
proof (cases s)
  case (Pair t w)
  have q: "\<And>x w'. heap (t_removeFunc t x w') = heap w'"
    using assms(1) Pair by (simp add: quiet_def)
  show ?thesis using Pair q
    by (cases ev; cases "t_status t")
       (auto simp: Let_def deferred_def sync_def on_bar_def bar_defs progressWorker_unfold
             Pool_Add_def split: option.splits sum.splits select_case.splits)
qed

lemma run_title:
  "quiet s \<Longrightarrow> bar_vars (heap (snd (run evs s)) b) = bar_vars (heap (snd s) b)
       \<and> bar_tmpl (heap (snd (run evs s)) b) = bar_tmpl (heap (snd s) b)"
  by (induction evs arbitrary: s) (simp_all add: step_quiet step_title)

lemma register_bridge_inv:
  assumes "RegisterProgressableContext ctx (Some p) (Some rf) w0 = (r, g, w1)"
  shows "g \<noteq> None \<and> bridge_inv (the g, w1) \<and> t_removeFunc (the g) = rf
            \<and> t_bar (the g) = fresh w0 \<and> r = Inr (fresh w0)"
  using assms
  by (auto simp: RegisterProgressableContext_def Let_def bridge_inv_def hasTitle_def on_bar_def
        bar_defs split: option.splits)

subsection \<open>The factory's counter and pool\<close>

lemma remove1_last: "x \<notin> set xs \<Longrightarrow> remove1 x (xs @ [x]) = xs"
  by (simp add: remove1_append)

lemma run_append: "run (evs @ evs') s = run evs' (run evs s)"
  by (induction evs arbitrary: s) simp_all

lemmas factory_step_defs =
  Let_def Mock_Finish_def close_chan_def Mock_SetCurrent_def progressWorker_unfold
  deferred_def sync_def on_bar_def factory_removeFunc_def Wg_Done_def Wg_Add_def
  Pool_Remove_def Pool_Add_def FinishedChan_def remove1_last remove1_idem

lemma step_factory_inv:
  assumes "factory_inv bs n s"
  shows "factory_inv bs n (step ev s)"
proof (cases s)
  case (Pair t w)
  show ?thesis
  proof (cases "t_status t = Running")
    case False
    then show ?thesis using assms Pair
      by (cases ev)
         (auto simp: factory_inv_def Let_def Mock_Finish_def close_chan_def Mock_SetCurrent_def
               Pool_Add_def split: option.splits sum.splits if_splits)
  next
    case True
    then show ?thesis using assms Pair
      by (cases ev; cases "t_add_pending t")
         (auto simp: factory_inv_def factory_step_defs
               split: option.splits sum.splits if_splits select_case.splits)
  qed
qed

lemma run_factory_inv: "factory_inv bs n s \<Longrightarrow> factory_inv bs n (run evs s)"
  by (induction evs arbitrary: s) (simp_all add: step_factory_inv)

lemma step_added_inv:
  assumes "factory_inv bs n s" "added_inv bs s"
  shows "added_inv bs (step ev s)"
proof (cases s)
  case (Pair t w)
  show ?thesis
  proof (cases "t_status t = Running")
    case False
    then show ?thesis using assms Pair
      by (cases ev)
         (auto simp: added_inv_def factory_inv_def Let_def Mock_Finish_def close_chan_def
               Mock_SetCurrent_def Pool_Add_def split: option.splits sum.splits if_splits)
  next
    case True
    then show ?thesis using assms Pair
      by (cases ev)
         (auto simp: added_inv_def factory_inv_def factory_step_defs
               split: option.splits sum.splits if_splits select_case.splits)
  qed
qed

lemma run_added_inv:
  "factory_inv bs n s \<Longrightarrow> added_inv bs s \<Longrightarrow> added_inv bs (run evs s)"
  by (induction evs arbitrary: s) (simp_all add: step_factory_inv step_added_inv)

lemma step_late_inv:
  assumes "late_inv bs s"
  shows "late_inv bs (step ev s)"
proof (cases s)
  case (Pair t w)
  then show ?thesis using assms
    by (cases ev)
       (auto simp: late_inv_def Let_def Mock_Finish_def close_chan_def Mock_SetCurrent_def
             Pool_Add_def split: option.splits sum.splits if_splits)
qed

lemma run_late_inv: "late_inv bs s \<Longrightarrow> late_inv bs (run evs s)"
  by (induction evs arbitrary: s) (simp_all add: step_late_inv)

lemma step_once_inv: "once_inv s \<Longrightarrow> once_inv (step ev s)"
  by (cases s; cases ev; cases "t_status (fst s)")
     (auto simp: once_inv_def Let_def Mock_Finish_def close_chan_def Mock_SetCurrent_def
           progressWorker_unfold deferred_def FinishedChan_def Pool_Add_def
           split: option.splits sum.splits if_splits select_case.splits)

lemma run_once_inv: "once_inv s \<Longrightarrow> once_inv (run evs s)"
  by (induction evs arbitrary: s) (simp_all add: step_once_inv)

lemma step_no_panic:
  assumes "factory_inv bs n s" "once_inv s" "panic (snd s) = None" "ev \<noteq> SrcSend"
  shows "panic (snd (step ev s)) = None"
proof (cases s)
  case (Pair t w)
  then show ?thesis using assms
    by (cases ev)
       (auto simp: factory_inv_def once_inv_def factory_step_defs
             split: option.splits sum.splits if_splits select_case.splits)
qed

lemma run_no_panic:
  "factory_inv bs n s \<Longrightarrow> once_inv s \<Longrightarrow> panic (snd s) = None \<Longrightarrow> SrcSend \<notin> set evs
     \<Longrightarrow> panic (snd (run evs s)) = None"
proof (induction evs arbitrary: s)
  case Nil
  then show ?case by simp
next
  case (Cons ev evs)
  have "factory_inv bs n (step ev s)" using Cons.prems(1) by (rule step_factory_inv)
  moreover have "once_inv (step ev s)" using Cons.prems(2) by (rule step_once_inv)
  moreover have "panic (snd (step ev s)) = None"
    using Cons.prems by (intro step_no_panic [of bs n]) auto
  ultimately show ?case using Cons.IH [of "step ev s"] Cons.prems(4) by simp
qed

lemma register_factory_inv:
  assumes "RegisterContext ctx (Some p) w0 = (r, g, w1)"
    and "0 \<le> wg w0" and "\<forall>x\<in>set (bars (pool w0)). x < fresh w0"
  shows "g \<noteq> None \<and> factory_inv (bars (pool w0)) (wg w0) (the g, w1) \<and> r = None
            \<and> t_status (the g) = Running \<and> t_bar (the g) = fresh w0 \<and> t_pr (the g) = p
            \<and> t_add_pending (the g) \<and> panic w1 = panic w0 \<and> wg w1 = wg w0 + 1"
  using assms
  by (auto simp: RegisterContext_def RegisterProgressableContext_def Let_def factory_inv_def
        hasTitle_def on_bar_def Wg_Add_def split: option.splits)

section \<open>The claims\<close>

subsection \<open>The bridge worker\<close>

text \<open>
  Claim C1.  When the completion case of the worker's \<open>select\<close> fires (the channel is
  closed and drained) the worker copies the source's \<open>Total()\<close> and \<open>Value()\<close> into the
  bar one last time, then marks the bar finished, then calls the removal callback with
  that bar, and has returned: no later event moves the store.  So the bar the callback
  receives has the source's total and value and is finished; with Total 150 and Value 150
  at that moment it has \<open>Current() = 150\<close> and \<open>IsFinished()\<close>.
\<close>

theorem completion_flushes_then_finishes:
  assumes "t_status t = Running" and "panic w = None"
    and "pending (FinishedChan (t_pr t)) = 0" and "closed (FinishedChan (t_pr t))"
    and "w1 = on_bar (t_bar t) Finish (sync t w)"
    and "s' = step (Select Fc) (t, w)"
  shows "s' = (t\<lparr>t_status := Completed, t_removed := t_removed t + 1\<rparr>,
               t_removeFunc t (t_bar t) w1)
       \<and> Total (heap w1 (t_bar t)) = pr_Total (t_pr t)
       \<and> Current (heap w1 (t_bar t)) = pr_Value (t_pr t)
       \<and> IsFinished (heap w1 (t_bar t))
       \<and> (\<forall>evs. heap (snd (run evs s')) = heap (snd s')
                \<and> t_status (fst (run evs s')) = Completed
                \<and> t_removed (fst (run evs s')) = t_removed t + 1)"
proof -
  have s': "s' = (t\<lparr>t_status := Completed, t_removed := t_removed t + 1\<rparr>,
               t_removeFunc t (t_bar t) w1)"
    using step_Fc_closed [OF assms(1-4)] assms(5,6) by simp
  have bar: "Total (heap w1 (t_bar t)) = pr_Total (t_pr t)
       \<and> Current (heap w1 (t_bar t)) = pr_Value (t_pr t) \<and> IsFinished (heap w1 (t_bar t))"
    using assms(5) by (simp add: sync_def on_bar_def bar_defs)
  have "t_status (fst s') \<noteq> Running" using s' by simp
  then have "\<And>evs. unchanged s' (run evs s')" by (rule run_returned)
  then have after: "\<forall>evs. heap (snd (run evs s')) = heap (snd s')
                \<and> t_status (fst (run evs s')) = Completed
                \<and> t_removed (fst (run evs s')) = t_removed t + 1"
    using s' by (simp add: unchanged_def)
  show ?thesis using s' bar after by blast
qed

theorem completion_flushes_then_finishes_witness:
  "t_status (fst flush_scenario) = Running \<and> panic (snd flush_scenario) = None
   \<and> FinishedChan (t_pr (fst flush_scenario)) = \<lparr>pending = 0, closed = True\<rparr>
   \<and> pr_Total (t_pr (fst flush_scenario)) = 150 \<and> pr_Value (t_pr (fst flush_scenario)) = 150
   \<and> Current (heap (snd flush_scenario) 0) = 90
   \<and> Current (heap (snd (step (Select Fc) flush_scenario)) 0) = 150
   \<and> IsFinished (heap (snd (step (Select Fc) flush_scenario)) 0)
   \<and> t_removed (fst (step (Select Fc) flush_scenario)) = 1"
  using completion_flushes_then_finishes
    [of "fst flush_scenario" "snd flush_scenario", OF _ _ _ _ refl refl]
  by (simp add: flush_scenario_def model_defs bar_defs)

text \<open>
  Claim C2, as stated: no execution ends with the bar both marked finished and carrying
  the cancellation error.  It fails: \<open>bar.Finish()\<close> is deferred, so it runs on the
  cancellation branch too, and a cancelled bar is finished and carries the error.
\<close>

theorem cancelled_bar_is_also_finished:
  "t_status (fst cancelled_run) = Cancelled
   \<and> IsFinished (heap (snd cancelled_run) 0)
   \<and> Err (heap (snd cancelled_run) 0) = Some ''context canceled''"
  by (simp add: cancelled_run_def model_defs bar_defs)

text \<open>
  Claim C2, amended.  After a registration whose callback writes no bar, along every
  execution the worker is in exactly one of three places, and the bar tells which: still
  running (bar not finished, no error); returned from the cancellation branch (bar
  finished and carrying the cancellation cause); returned from the completion branch (bar
  finished, no error, completion channel closed).  Once returned it stays where it is.
\<close>

theorem terminal_branches_exclusive:
  assumes "RegisterProgressableContext ctx (Some p) (Some rf) w0 = (r, g, w1)"
    and "\<And>x w. heap (rf x w) = heap w"
    and "s = run evs (the g, w1)"
    and "bar = heap (snd s) (fresh w0)"
  shows "(t_status (fst s) = Running \<longrightarrow> \<not> IsFinished bar \<and> Err bar = None)
       \<and> (t_status (fst s) = Cancelled \<longrightarrow>
            IsFinished bar \<and> Err bar \<noteq> None \<and> Err bar = ctx_Err (t_ctx (fst s)))
       \<and> (t_status (fst s) = Completed \<longrightarrow>
            IsFinished bar \<and> Err bar = None \<and> closed (FinishedChan (t_pr (fst s))))
       \<and> (t_status (fst s) \<noteq> Running \<longrightarrow>
            (\<forall>evs'. t_status (fst (run evs' s)) = t_status (fst s)
                  \<and> heap (snd (run evs' s)) = heap (snd s)))"
proof -
  have reg: "bridge_inv (the g, w1) \<and> t_removeFunc (the g) = rf \<and> t_bar (the g) = fresh w0"
    using register_bridge_inv [OF assms(1)] by simp
  have q: "quiet (the g, w1)" using reg assms(2) by (simp add: quiet_def)
  have inv: "bridge_inv s" unfolding assms(3) using q reg by (simp add: run_bridge_inv)
  have b: "t_bar (fst s) = fresh w0" unfolding assms(3) using reg by (simp add: run_t_bar)
  have stay: "t_status (fst s) \<noteq> Running \<Longrightarrow> unchanged s (run evs' s)" for evs'
    by (rule run_returned)
  show ?thesis using inv b stay unfolding assms(4)
    by (cases "t_status (fst s)") (auto simp: bridge_inv_def Let_def unchanged_def)
qed

theorem terminal_branches_exclusive_witness:
  "t_status (fst cancelled_run) = Cancelled
   \<and> IsFinished (heap (snd cancelled_run) (fresh no_bars))
   \<and> Err (heap (snd cancelled_run) (fresh no_bars)) \<noteq> None
   \<and> Err (heap (snd cancelled_run) (fresh no_bars)) = ctx_Err (t_ctx (fst cancelled_run))
   \<and> t_status (fst (run after_cancel cancelled_run)) = Cancelled"
proof -
  have st: "t_status (fst cancelled_run) = Cancelled"
    by (simp add: cancelled_run_def model_defs bar_defs)
  obtain r g w1 where reg:
    "RegisterProgressableContext (Some (WithCancel None)) (Some (NewMockProgressable 100))
       (Some noop) no_bars = (r, g, w1)"
    by (cases "RegisterProgressableContext (Some (WithCancel None))
                 (Some (NewMockProgressable 100)) (Some noop) no_bars") auto
  have s: "cancelled_run = run [CtxCancel ''context canceled'', Select CtxDone] (the g, w1)"
    using reg by (simp add: cancelled_run_def started_def)
  show ?thesis
    using terminal_branches_exclusive [OF reg _ s refl] st by (auto simp: noop_def)
qed

text \<open>
  Claim C6.  When the cancellation case of the worker's \<open>select\<close> fires, the worker writes
  the context's error into the bar, does not synchronize (total and current stay as they
  were), marks the bar finished, calls the removal callback once and has returned: whatever
  the source reports later and whichever case the scheduler offers, the store is never
  written again and the callback is not called again.
\<close>

theorem cancellation_records_cause_and_stops:
  assumes "t_status t = Running" and "panic w = None" and "ctx_Err (t_ctx t) = Some e"
    and "w1 = on_bar (t_bar t) Finish (on_bar (t_bar t) (SetErr (Some e)) w)"
    and "s' = step (Select CtxDone) (t, w)"
  shows "s' = (t\<lparr>t_status := Cancelled, t_removed := t_removed t + 1\<rparr>,
               t_removeFunc t (t_bar t) w1)
       \<and> Err (heap w1 (t_bar t)) = Some e
       \<and> Total (heap w1 (t_bar t)) = Total (heap w (t_bar t))
       \<and> Current (heap w1 (t_bar t)) = Current (heap w (t_bar t))
       \<and> (\<forall>evs. heap (snd (run evs s')) = heap (snd s')
                \<and> t_status (fst (run evs s')) = Cancelled
                \<and> t_removed (fst (run evs s')) = t_removed t + 1)"
proof -
  have s': "s' = (t\<lparr>t_status := Cancelled, t_removed := t_removed t + 1\<rparr>,
               t_removeFunc t (t_bar t) w1)"
    using step_CtxDone [OF assms(1-3)] assms(4,5) by simp
  have bar: "Err (heap w1 (t_bar t)) = Some e
       \<and> Total (heap w1 (t_bar t)) = Total (heap w (t_bar t))
       \<and> Current (heap w1 (t_bar t)) = Current (heap w (t_bar t))"
    using assms(4) by (simp add: on_bar_def bar_defs)
  have "t_status (fst s') \<noteq> Running" using s' by simp
  then have "\<And>evs. unchanged s' (run evs s')" by (rule run_returned)
  then have after: "\<forall>evs. heap (snd (run evs s')) = heap (snd s')
                \<and> t_status (fst (run evs s')) = Cancelled
                \<and> t_removed (fst (run evs s')) = t_removed t + 1"
    using s' by (simp add: unchanged_def)
  show ?thesis using s' bar after by blast
qed

theorem cancellation_records_cause_and_stops_witness:
  "t_status (fst cancel_scenario) = Running \<and> panic (snd cancel_scenario) = None
   \<and> ctx_Err (t_ctx (fst cancel_scenario)) = Some ''context canceled''
   \<and> Current (heap (snd cancel_scenario) 0) = 40
   \<and> Err (heap (snd (step (Select CtxDone) cancel_scenario)) 0) = Some ''context canceled''
   \<and> Current (heap (snd (run after_cancel (step (Select CtxDone) cancel_scenario))) 0) = 40
   \<and> Total (heap (snd (run after_cancel (step (Select CtxDone) cancel_scenario))) 0) = 100
   \<and> t_removed (fst (run after_cancel (step (Select CtxDone) cancel_scenario))) = 1"
proof -
  have hyp: "t_status (fst cancel_scenario) = Running" "panic (snd cancel_scenario) = None"
    "ctx_Err (t_ctx (fst cancel_scenario)) = Some ''context canceled''"
    by (simp_all add: cancel_scenario_def model_defs bar_defs)
  have now: "Current (heap (snd cancel_scenario) 0) = 40
    \<and> Total (heap (snd cancel_scenario) 0) = 100 \<and> t_removed (fst cancel_scenario) = 0
    \<and> t_bar (fst cancel_scenario) = 0
    \<and> t_removeFunc (fst cancel_scenario) = factory_removeFunc"
    by (simp add: cancel_scenario_def model_defs bar_defs)
  have fr: "heap (factory_removeFunc x w) = heap w" for x w
    by (simp add: model_defs)
  define s' where "s' = step (Select CtxDone) cancel_scenario"
  define w1 where "w1 = on_bar (t_bar (fst cancel_scenario)) Finish
    (on_bar (t_bar (fst cancel_scenario)) (SetErr (Some ''context canceled'')) (snd cancel_scenario))"
  have s'_eq: "s' = step (Select CtxDone) (fst cancel_scenario, snd cancel_scenario)"
    by (simp add: s'_def)
  note T = cancellation_records_cause_and_stops
      [of "fst cancel_scenario" "snd cancel_scenario", OF hyp w1_def s'_eq]
  have hp: "heap (snd s') = heap w1" using T now by (simp add: fr)
  have stays: "\<forall>evs. heap (snd (run evs s')) = heap (snd s')
                \<and> t_status (fst (run evs s')) = Cancelled
                \<and> t_removed (fst (run evs s')) = t_removed (fst cancel_scenario) + 1"
    using T by blast
  have after: "heap (snd (run after_cancel s')) = heap w1
         \<and> t_removed (fst (run after_cancel s')) = 1"
    using stays hp now by simp
  have bar: "Err (heap w1 0) = Some ''context canceled'' \<and> Total (heap w1 0) = 100
         \<and> Current (heap w1 0) = 40"
    using T now by (simp add: bar_defs)
  show ?thesis using hyp now hp after bar unfolding s'_def by simp
qed


subsection \<open>Registration\<close>

text \<open>
  Claim C7.  \<open>RegisterProgressableContext\<close> with a nil source or a nil removal callback
  returns an error, starts no goroutine and leaves the world as it was.  The factory's
  \<open>RegisterContext(nil)\<close> and \<open>Register(nil)\<close> return an error, start nothing and leave the
  world, so the outstanding counter, as it was.  A \<open>Register\<close> of a source succeeds,
  starts the worker and leaves the counter one higher.
\<close>

theorem nil_registration_fails_without_effect:
  assumes "0 \<le> wg w"
  shows "RegisterProgressableContext ctx None rf w
           = (Inl ''RegisterProgressable: pr is nil'', None, w)
       \<and> RegisterProgressableContext ctx (Some p) None w
           = (Inl ''RegisterProgressable: removeFunc is nil'', None, w)
       \<and> RegisterContext ctx None w = (Some ''Register: progressable is nil'', None, w)
       \<and> Register None w = (Some ''Register: progressable is nil'', None, w)
       \<and> fst (Register (Some p) w) = None
       \<and> fst (snd (Register (Some p) w)) \<noteq> None
       \<and> t_status (fst (started (Register (Some p) w))) = Running
       \<and> wg (snd (started (Register (Some p) w))) = wg w + 1"
  using assms
  by (simp add: RegisterProgressableContext_def RegisterContext_def Register_def Let_def
        started_def Wg_Add_def Pool_Add_def hasTitle_def on_bar_def
        split: option.splits)

theorem nil_registration_fails_without_effect_witness:
  "0 \<le> wg no_bars
   \<and> Register None no_bars = (Some ''Register: progressable is nil'', None, no_bars)
   \<and> wg (snd (snd (Register None no_bars))) = 0
   \<and> RegisterProgressable None (Some noop) no_bars
       = (Inl ''RegisterProgressable: pr is nil'', None, no_bars)
   \<and> fst (Register (Some (NewMockProgressable 100)) no_bars) = None
   \<and> wg (snd (started (Register (Some (NewMockProgressable 100)) no_bars))) = 1"
  using nil_registration_fails_without_effect
    [of no_bars "Some Background" "Some noop" "NewMockProgressable 100"]
  by (simp add: RegisterProgressable_def no_bars_def)

text \<open>
  Claim C8.  After a successful registration with the factory, along every execution and
  whatever the order of the worker's turns and the caller's \<open>f.Pool.Add(bar)\<close>, the
  removal callback has been called not at all while the worker runs and exactly once when
  it has returned, by either branch, and the counter is then back at its old value, once.
  The worker returns as soon as a terminal case that is ready is taken.  Firing the
  completion again (\<open>Finish\<close> of the source, guarded by its \<open>sync.Once\<close>) changes none
  of this and does not panic.  What the one call of the callback does to the pool depends
  on the order: when the \<open>Add\<close> has come while the worker was in its loop, the bar is
  in the pool until the worker returns and out of it from then on; when the worker has
  returned while the \<open>Add\<close> was still ahead, its \<open>Pool.Remove\<close> found no bar, and the
  bar is in the pool from the \<open>Add\<close> on.
\<close>

theorem removal_callback_exactly_once:
  assumes "RegisterContext ctx (Some p) w0 = (r, g, w1)"
    and "0 \<le> wg w0" and "panic w0 = None"
    and "\<forall>x\<in>set (bars (pool w0)). x < fresh w0"
    and "s1 = run evs1 (the g, w1)"
    and "s = run evs2 s1"
  shows "t_removed (fst s) = (if t_status (fst s) = Running then 0 else 1)
       \<and> wg (snd s) = (if t_status (fst s) = Running then wg w0 + 1 else wg w0)
       \<and> (t_add_pending (fst s) \<longrightarrow> bars (pool (snd s)) = bars (pool w0))
       \<and> (\<not> t_add_pending (fst s) \<and> t_status (fst s) = Running
             \<longrightarrow> bars (pool (snd s)) = bars (pool w0) @ [fresh w0])
       \<and> (\<not> t_add_pending (fst s1) \<and> t_status (fst s1) = Running
             \<longrightarrow> bars (pool (snd s))
                  = (if t_status (fst s) = Running then bars (pool w0) @ [fresh w0]
                     else bars (pool w0)))
       \<and> (t_add_pending (fst s1) \<and> t_status (fst s1) \<noteq> Running
             \<longrightarrow> bars (pool (snd s))
                  = (if t_add_pending (fst s) then bars (pool w0)
                     else bars (pool w0) @ [fresh w0]))
       \<and> ((closed (finishCh p) \<longrightarrow> finishOnce p) \<and> SrcSend \<notin> set evs1 \<and> SrcSend \<notin> set evs2
             \<longrightarrow> panic (snd s) = None)
       \<and> (panic (snd s) = None \<and> t_status (fst s) = Running
             \<and> ctx_Err (t_ctx (fst s)) \<noteq> None
             \<longrightarrow> t_status (fst (step (Select CtxDone) s)) = Cancelled)
       \<and> (panic (snd s) = None \<and> t_status (fst s) = Running
             \<and> pending (FinishedChan (t_pr (fst s))) = 0 \<and> closed (FinishedChan (t_pr (fst s)))
             \<longrightarrow> t_status (fst (step (Select Fc) s)) = Completed)"
proof -
  have reg: "factory_inv (bars (pool w0)) (wg w0) (the g, w1) \<and> t_bar (the g) = fresh w0
      \<and> t_pr (the g) = p \<and> panic w1 = panic w0"
    using register_factory_inv [OF assms(1,2,4)] by simp
  have inv1: "factory_inv (bars (pool w0)) (wg w0) s1"
    unfolding assms(5) using reg by (simp add: run_factory_inv)
  have inv: "factory_inv (bars (pool w0)) (wg w0) s"
    unfolding assms(6) using inv1 by (rule run_factory_inv)
  have b1: "t_bar (fst s1) = fresh w0" unfolding assms(5) using reg by (simp add: run_t_bar)
  have b: "t_bar (fst s) = fresh w0" unfolding assms(6) using b1 by (simp add: run_t_bar)
  have counts: "t_removed (fst s) = (if t_status (fst s) = Running then 0 else 1)
       \<and> wg (snd s) = (if t_status (fst s) = Running then wg w0 + 1 else wg w0)
       \<and> (t_add_pending (fst s) \<longrightarrow> bars (pool (snd s)) = bars (pool w0))
       \<and> (\<not> t_add_pending (fst s) \<and> t_status (fst s) = Running
             \<longrightarrow> bars (pool (snd s)) = bars (pool w0) @ [fresh w0])"
    using inv b by (simp add: factory_inv_def Let_def)
  have early: "bars (pool (snd s))
                  = (if t_status (fst s) = Running then bars (pool w0) @ [fresh w0]
                     else bars (pool w0))"
    if a: "\<not> t_add_pending (fst s1)" "t_status (fst s1) = Running"
  proof -
    have "added_inv (bars (pool w0)) s1"
      using inv1 a b1 by (simp add: added_inv_def factory_inv_def Let_def)
    then have "added_inv (bars (pool w0)) s"
      unfolding assms(6) using inv1 by (simp add: run_added_inv)
    then show ?thesis using b by (simp add: added_inv_def)
  qed
  have late: "bars (pool (snd s))
                  = (if t_add_pending (fst s) then bars (pool w0)
                     else bars (pool w0) @ [fresh w0])"
    if a: "t_add_pending (fst s1)" "t_status (fst s1) \<noteq> Running"
  proof -
    have "late_inv (bars (pool w0)) s1"
      using inv1 a by (simp add: late_inv_def factory_inv_def Let_def)
    then have "late_inv (bars (pool w0)) s"
      unfolding assms(6) by (rule run_late_inv)
    then show ?thesis using b by (simp add: late_inv_def)
  qed
  have calm: "panic (snd s) = None"
    if a: "closed (finishCh p) \<longrightarrow> finishOnce p" "SrcSend \<notin> set evs1" "SrcSend \<notin> set evs2"
  proof -
    have o: "once_inv (the g, w1)" using a(1) reg by (simp add: once_inv_def)
    have "panic (snd (run (evs1 @ evs2) (the g, w1))) = None"
      using reg assms(3) a(2,3) o
      by (intro run_no_panic [of "bars (pool w0)" "wg w0"]) simp_all
    then show ?thesis unfolding assms(5,6) by (simp add: run_append)
  qed
  have cancel: "t_status (fst (step (Select CtxDone) s)) = Cancelled"
    if a: "panic (snd s) = None" "t_status (fst s) = Running" "ctx_Err (t_ctx (fst s)) \<noteq> None"
  proof -
    obtain e where "ctx_Err (t_ctx (fst s)) = Some e" using a(3) by auto
    then show ?thesis using step_CtxDone [of "fst s" "snd s" e] a(1,2) by simp
  qed
  have complete: "t_status (fst (step (Select Fc) s)) = Completed"
    if "panic (snd s) = None" "t_status (fst s) = Running"
      "pending (FinishedChan (t_pr (fst s))) = 0" "closed (FinishedChan (t_pr (fst s)))"
    using step_Fc_closed [of "fst s" "snd s"] that by simp
  show ?thesis using counts early late calm cancel complete by blast
qed

theorem removal_callback_exactly_once_witness:
  "t_status (fst (run double_fire (run [CallerAdd]
      (started (Register (Some (NewMockProgressable 100)) no_bars))))) = Completed
   \<and> t_removed (fst (run double_fire (run [CallerAdd]
      (started (Register (Some (NewMockProgressable 100)) no_bars))))) = 1
   \<and> wg (snd (run double_fire (run [CallerAdd]
      (started (Register (Some (NewMockProgressable 100)) no_bars))))) = 0
   \<and> bars (pool (snd (run [CallerAdd]
      (started (Register (Some (NewMockProgressable 100)) no_bars))))) = [0]
   \<and> bars (pool (snd (run double_fire (run [CallerAdd]
      (started (Register (Some (NewMockProgressable 100)) no_bars)))))) = []
   \<and> panic (snd (run double_fire (run [CallerAdd]
      (started (Register (Some (NewMockProgressable 100)) no_bars))))) = None
   \<and> t_removed (fst (run late_add (run early_return
      (started (Register (Some (NewMockProgressable 100)) no_bars))))) = 1
   \<and> wg (snd (run late_add (run early_return
      (started (Register (Some (NewMockProgressable 100)) no_bars))))) = 0
   \<and> bars (pool (snd (run early_return
      (started (Register (Some (NewMockProgressable 100)) no_bars))))) = []
   \<and> bars (pool (snd (run late_add (run early_return
      (started (Register (Some (NewMockProgressable 100)) no_bars)))))) = [0]
   \<and> panic (snd (run late_add (run early_return
      (started (Register (Some (NewMockProgressable 100)) no_bars))))) = None"
proof -
  obtain r g w1 where reg:
    "RegisterContext (Some Background) (Some (NewMockProgressable 100)) no_bars = (r, g, w1)"
    by (cases "RegisterContext (Some Background) (Some (NewMockProgressable 100)) no_bars") auto
  have st: "started (Register (Some (NewMockProgressable 100)) no_bars) = (the g, w1)"
    using reg by (simp add: started_def Register_def)
  have order1: "\<not> t_add_pending (fst (run [CallerAdd] (the g, w1)))
      \<and> t_status (fst (run [CallerAdd] (the g, w1))) = Running
      \<and> t_status (fst (run double_fire (run [CallerAdd] (the g, w1)))) = Completed"
    using reg by (auto simp: double_fire_def model_defs bar_defs)
  have order2: "t_add_pending (fst (run early_return (the g, w1)))
      \<and> t_status (fst (run early_return (the g, w1))) = Completed
      \<and> t_status (fst (run late_add (run early_return (the g, w1)))) = Completed
      \<and> \<not> t_add_pending (fst (run late_add (run early_return (the g, w1))))"
    using reg by (auto simp: early_return_def late_add_def model_defs bar_defs)
  have pre: "0 \<le> wg no_bars" "panic no_bars = None"
    "\<forall>x\<in>set (bars (pool no_bars)). x < fresh no_bars"
    by (simp_all add: no_bars_def)
  have src: "closed (finishCh (NewMockProgressable 100)) \<longrightarrow> finishOnce (NewMockProgressable 100)"
    "SrcSend \<notin> set double_fire" "SrcSend \<notin> set early_return" "SrcSend \<notin> set late_add"
    by (simp_all add: NewMockProgressable_def double_fire_def early_return_def late_add_def)
  note A = removal_callback_exactly_once [OF reg pre refl refl, of "[]" "[CallerAdd]"]
  note B = removal_callback_exactly_once [OF reg pre refl refl, of double_fire "[CallerAdd]"]
  note C = removal_callback_exactly_once [OF reg pre refl refl, of "[]" early_return]
  note D = removal_callback_exactly_once [OF reg pre refl refl, of late_add early_return]
  have a: "bars (pool (snd (run [CallerAdd] (the g, w1)))) = [0]"
    using A order1 by (simp add: no_bars_def)
  have b: "t_removed (fst (run double_fire (run [CallerAdd] (the g, w1)))) = 1
      \<and> wg (snd (run double_fire (run [CallerAdd] (the g, w1)))) = 0
      \<and> bars (pool (snd (run double_fire (run [CallerAdd] (the g, w1))))) = []
      \<and> panic (snd (run double_fire (run [CallerAdd] (the g, w1)))) = None"
    using B order1 src by (simp add: no_bars_def)
  have c: "bars (pool (snd (run early_return (the g, w1)))) = []"
    using C order2 by (simp add: no_bars_def)
  have d: "t_removed (fst (run late_add (run early_return (the g, w1)))) = 1
      \<and> wg (snd (run late_add (run early_return (the g, w1)))) = 0
      \<and> bars (pool (snd (run late_add (run early_return (the g, w1))))) = [0]
      \<and> panic (snd (run late_add (run early_return (the g, w1)))) = None"
    using D order2 src by (simp add: no_bars_def)
  show ?thesis unfolding st using order1 a b c d by simp
qed

text \<open>
  Claim C9.  The title is read at registration and never again.  \<open>hasTitle\<close> leaves the
  bar as \<open>New64\<close> made it when the source has no title method or an empty title, and
  otherwise stores the title under the key \<open>title\<close> and installs the template that
  begins with the title, \<open>{{string . "title"}} {{counters . }} {{bar . }} {{percent . }}
  {{speed . }}\<close>; and along every execution after the registration (with a callback that
  writes no bar) the bar's data and template stay what they were then, whatever title the
  source reports later.
\<close>

theorem title_probed_once_at_registration:
  assumes "RegisterProgressableContext ctx (Some p) (Some rf) w0 = (r, g, w1)"
    and "\<And>x w. heap (rf x w) = heap w"
    and "s = run evs (the g, w1)"
  shows "heap w1 (fresh w0) =
           (case src_title p of
              None \<Rightarrow> New64 (pr_Total p)
            | Some title \<Rightarrow>
                if title = [] then New64 (pr_Total p)
                else SetTemplateString
                       ''{{string . \"title\"}} {{counters . }} {{bar . }} {{percent . }} {{speed . }}''
                       (Set ''title'' title (New64 (pr_Total p))))
       \<and> bar_vars (heap (snd s) (fresh w0)) = bar_vars (heap w1 (fresh w0))
       \<and> bar_tmpl (heap (snd s) (fresh w0)) = bar_tmpl (heap w1 (fresh w0))
       \<and> (src_title p = None \<or> src_title p = Some [] \<longrightarrow>
            Get ''title'' (heap (snd s) (fresh w0)) = None
            \<and> bar_tmpl (heap (snd s) (fresh w0)) = None)
       \<and> (\<forall>title. src_title p = Some title \<and> title \<noteq> [] \<longrightarrow>
            Get ''title'' (heap (snd s) (fresh w0)) = Some title
            \<and> bar_tmpl (heap (snd s) (fresh w0)) =
                Some ''{{string . \"title\"}} {{counters . }} {{bar . }} {{percent . }} {{speed . }}'')"
proof -
  have bar: "heap w1 (fresh w0) =
           (case src_title p of
              None \<Rightarrow> New64 (pr_Total p)
            | Some title \<Rightarrow>
                if title = [] then New64 (pr_Total p)
                else SetTemplateString
                       ''{{string . \"title\"}} {{counters . }} {{bar . }} {{percent . }} {{speed . }}''
                       (Set ''title'' title (New64 (pr_Total p))))"
    using assms(1)
    by (auto simp: RegisterProgressableContext_def Let_def hasTitle_def on_bar_def
          titleTemplate_def split: option.splits)
  have reg: "t_removeFunc (the g) = rf" using register_bridge_inv [OF assms(1)] by simp
  have q: "quiet (the g, w1)" using reg assms(2) by (simp add: quiet_def)
  have keep: "bar_vars (heap (snd s) (fresh w0)) = bar_vars (heap w1 (fresh w0))
       \<and> bar_tmpl (heap (snd s) (fresh w0)) = bar_tmpl (heap w1 (fresh w0))"
    unfolding assms(3) using run_title [OF q, of evs "fresh w0"] by simp
  have none: "Get ''title'' (heap (snd s) (fresh w0)) = None
            \<and> bar_tmpl (heap (snd s) (fresh w0)) = None"
    if "src_title p = None \<or> src_title p = Some []"
    using that keep bar by (auto simp: bar_defs)
  have some: "Get ''title'' (heap (snd s) (fresh w0)) = Some title
            \<and> bar_tmpl (heap (snd s) (fresh w0)) =
                Some ''{{string . \"title\"}} {{counters . }} {{bar . }} {{percent . }} {{speed . }}''"
    if "src_title p = Some title" "title \<noteq> []" for title
    using that keep bar by (simp add: bar_defs)
  show ?thesis using bar keep none some by blast
qed

theorem title_probed_once_at_registration_witness:
  "Get ''title'' (heap (snd (run retitled (started (RegisterProgressableContext
       (Some Background) (Some (NewMockProgressableWithTitle 100 ''Upload:'')) (Some noop)
       no_bars)))) 0) = Some ''Upload:''
   \<and> bar_tmpl (heap (snd (run retitled (started (RegisterProgressableContext
       (Some Background) (Some (NewMockProgressableWithTitle 100 ''Upload:'')) (Some noop)
       no_bars)))) 0)
      = Some ''{{string . \"title\"}} {{counters . }} {{bar . }} {{percent . }} {{speed . }}''
   \<and> src_title (t_pr (fst (run retitled (started (RegisterProgressableContext
       (Some Background) (Some (NewMockProgressableWithTitle 100 ''Upload:'')) (Some noop)
       no_bars))))) = Some ''Other:''"
proof -
  obtain r g w1 where reg:
    "RegisterProgressableContext (Some Background)
       (Some (NewMockProgressableWithTitle 100 ''Upload:'')) (Some noop) no_bars = (r, g, w1)"
    by (cases "RegisterProgressableContext (Some Background)
       (Some (NewMockProgressableWithTitle 100 ''Upload:'')) (Some noop) no_bars") auto
  have st: "started (RegisterProgressableContext (Some Background)
       (Some (NewMockProgressableWithTitle 100 ''Upload:'')) (Some noop) no_bars) = (the g, w1)"
    using reg by (simp add: started_def)
  have src: "src_title (t_pr (fst (run retitled (the g, w1)))) = Some ''Other:''"
    using reg by (auto simp: retitled_def model_defs bar_defs)
  have q: "heap (noop x w) = heap w" for x w by (simp add: noop_def)
  show ?thesis
    using title_probed_once_at_registration [OF reg q refl, of retitled] src
    unfolding st
    by (simp add: no_bars_def NewMockProgressableWithTitle_def NewMockProgressable_def
          bar_defs)
qed

text \<open>
  Claim C10.  A successful registration returns, at once, a bar whose \<open>Total()\<close> is the
  source's \<open>Total()\<close>: the bar is allocated by \<open>New64(pr.Total())\<close> before the worker, which
  is started in its loop and has not taken a turn, sees any tick.
\<close>

theorem registered_bar_has_source_total:
  "fst (RegisterProgressableContext ctx (Some p) (Some rf) w) = Inr (fresh w)
   \<and> Total (heap (snd (snd (RegisterProgressableContext ctx (Some p) (Some rf) w))) (fresh w))
       = pr_Total p
   \<and> Current (heap (snd (snd (RegisterProgressableContext ctx (Some p) (Some rf) w))) (fresh w))
       = 0
   \<and> fst (snd (RegisterProgressableContext ctx (Some p) (Some rf) w)) \<noteq> None
   \<and> t_status (fst (started (RegisterProgressableContext ctx (Some p) (Some rf) w))) = Running
   \<and> t_bar (fst (started (RegisterProgressableContext ctx (Some p) (Some rf) w))) = fresh w
   \<and> Total (heap (snd (started (Register (Some p) w))) (fresh w)) = pr_Total p"
  by (auto simp: RegisterProgressableContext_def RegisterContext_def Register_def Let_def
        started_def Wg_Add_def Pool_Add_def hasTitle_def on_bar_def bar_defs
        split: option.splits)

theorem registered_bar_has_source_total_witness:
  "fst (RegisterProgressable (Some (NewMockProgressable 100)) (Some noop) no_bars) = Inr 0
   \<and> Total (heap (snd (snd (RegisterProgressable (Some (NewMockProgressable 100)) (Some noop)
        no_bars))) 0) = 100"
  using registered_bar_has_source_total
    [of "Some Background" "NewMockProgressable 100" noop no_bars]
  by (simp add: RegisterProgressable_def no_bars_def NewMockProgressable_def pr_Total_def)


subsection \<open>The pool's redraw\<close>

text \<open>
  Claim C5.  A frame of pool_x.go over \<open>N\<close> bars on a terminal that reports \<open>H\<close> rows
  draws, when \<open>0 < H < N\<close>, exactly the last \<open>H\<close> bars of the display order, and draws all
  \<open>N\<close> bars when \<open>H \<ge> N\<close> or no row count is known (\<open>H \<le> 0\<close>): the text written is the
  cursor-up prefix followed by one line for each of those bars, in order, and the line
  count remembered for the next frame is their number.
\<close>

theorem print_x_draws_last_rows:
  assumes "TerminalSize d = (H, c, e)"
    and "cols = (if e \<noteq> None then defaultBarWidth d else c)"
    and "up = (if first then [] else [CHR 0x1B, CHR ''[''] @ show_int (lastBarsCount (pool w)) @ ''A'')"
    and "N = length (bars (pool w))"
    and "sh = (if 0 < H \<and> H < int N then drop (N - nat H) (bars (pool w)) else bars (pool w))"
  shows "fst (snd (print_x d first w)) =
           write_out d (pool w) (up @ concat (map (\<lambda>b. line_x d cols (heap w b)) sh))
       \<and> lastBarsCount (pool (snd (snd (print_x d first w)))) = int (length sh)
       \<and> bars (pool (snd (snd (print_x d first w)))) = bars (pool w)
       \<and> length sh = (if 0 < H \<and> H < int N then nat H else N)"
proof -
  have sh: "shown_x H (bars (pool w)) = sh"
    using assms(4,5) by (auto simp: shown_x_def nat_diff_distrib)
  obtain f out h where dr: "draw_x d cols sh (True, up, heap w) = (f, out, h)"
    by (cases "draw_x d cols sh (True, up, heap w)") auto
  have out: "out = up @ concat (map (\<lambda>b. line_x d cols (heap w b)) sh)"
    using draw_x_out [of d cols sh True up "heap w"] dr by simp
  have pr: "print_x d first w =
      (f, write_out d (pool w) out,
       w\<lparr>heap := h, pool := (pool w)\<lparr>lastBarsCount := int (length sh)\<rparr>\<rparr>)"
    using dr sh unfolding assms(2,3)
    by (cases first; cases e) (simp_all add: print_x_def Let_def assms(1))
  show ?thesis using pr out assms(4,5) by auto
qed

theorem print_x_draws_last_rows_witness:
  "fst (snd (print_x (plain_driver 2) True three_bars))
     = [WriteStderr (CHR 0x0D # ''done  '' @ CHR 0x0A # CHR 0x0D # ''busy  '' @ [CHR 0x0A])]
   \<and> lastBarsCount (pool (snd (snd (print_x (plain_driver 2) True three_bars)))) = 2
   \<and> fst (snd (print_x (plain_driver 5) True three_bars))
     = [WriteStderr (CHR 0x0D # ''busy  '' @ CHR 0x0A # CHR 0x0D # ''done  ''
          @ CHR 0x0A # CHR 0x0D # ''busy  '' @ [CHR 0x0A])]
   \<and> lastBarsCount (pool (snd (snd (print_x (plain_driver 5) True three_bars)))) = 3"
  using print_x_draws_last_rows
      [of "plain_driver 2" 2 6 None 6 "[]" True three_bars 3 "[1, 2]"]
    print_x_draws_last_rows
      [of "plain_driver 5" 5 6 None 6 "[]" True three_bars 3 "[0, 1, 2]"]
  by (simp add: plain_driver_def three_bars_def write_out_def line_x_def pad_line_def bar_defs
        numeral_2_eq_2)

text \<open>
  Claim C4, at a pool of two bars on a terminal of one row: the older bar is not
  finished and is elided, the newer one is finished, and \<open>print\<close> of pool_x.go reports
  the all-finished condition although a tracked bar is not finished.  The finished check
  sits inside the loop over the bars that are shown.
\<close>

theorem print_x_finished_ignores_elided_bars:
  "fst (print_x (plain_driver 1) True two_bars)
   \<and> bars (pool two_bars) = [0, 1]
   \<and> \<not> IsFinished (heap two_bars 0)
   \<and> IsFinished (heap two_bars 1)
   \<and> bars (pool (snd (snd (print_x (plain_driver 1) True two_bars)))) = [0, 1]
   \<and> \<not> fst (print_win (plain_driver 1) True two_bars)"
  by (simp add: print_defs bar_defs numeral_2_eq_2)

text \<open>
  Claim C3, at the same pool and terminal: pool_x.go draws the newest bar only and
  reports all finished, pool_win.go draws both bars and reports not all finished; and
  pool_x.go sets the width of the bars it draws where pool_win.go leaves the store alone.
\<close>

theorem print_x_and_print_win_differ:
  "fst (snd (print_x (plain_driver 1) True two_bars))
     = [WriteStderr (CHR 0x0D # ''done  '' @ [CHR 0x0A])]
   \<and> fst (snd (print_win (plain_driver 1) True two_bars))
     = [WriteStderr (CHR 0x0D # ''busy  '' @ CHR 0x0A # CHR 0x0D # ''done  '' @ [CHR 0x0A])]
   \<and> fst (print_x (plain_driver 1) True two_bars)
       \<noteq> fst (print_win (plain_driver 1) True two_bars)
   \<and> lastBarsCount (pool (snd (snd (print_x (plain_driver 1) True two_bars)))) = 1
   \<and> lastBarsCount (pool (snd (snd (print_win (plain_driver 1) True two_bars)))) = 2
   \<and> bar_width (heap (snd (snd (print_x (plain_driver 1) True two_bars))) 1) = 6
   \<and> bar_width (heap (snd (snd (print_win (plain_driver 1) True two_bars))) 1) = 0"
  by (simp add: print_defs bar_defs numeral_2_eq_2)


end
